theory Spec2Isabelle
  imports Main "HOL-Library.Char_ord" "HOL-Library.List_Lexorder" "HOL-Library.Multiset"
begin

section \<open>Python string operations used by generate_headers.py\<close>

text \<open>
  Source text is modelled as \<^typ>\<open>string\<close> over ASCII, which is what Rust identifiers and
  FFI signatures consist of. A character outside ASCII is treated as an ordinary character
  that is neither white space nor a word character and has no case.
\<close>

definition isspace :: "char \<Rightarrow> bool" where
  \<comment> \<open>\<open>str.isspace\<close> on ASCII: TAB, LF, VT, FF, CR, FS, GS, RS, US and the blank.\<close>
  "isspace c = (c \<in> set [CHR 0x09, CHR 0x0A, CHR 0x0B, CHR 0x0C, CHR 0x0D,
                           CHR 0x1C, CHR 0x1D, CHR 0x1E, CHR 0x1F, CHR 0x20])"

definition lstrip :: "string \<Rightarrow> string" where
  "lstrip s = dropWhile isspace s"

definition rstrip :: "string \<Rightarrow> string" where
  "rstrip s = rev (dropWhile isspace (rev s))"

definition strip :: "string \<Rightarrow> string" where
  \<comment> \<open>\<open>s.strip()\<close>\<close>
  "strip s = rstrip (lstrip s)"

definition startswith :: "string \<Rightarrow> string \<Rightarrow> bool" where
  \<comment> \<open>\<open>s.startswith(p)\<close>, the prefix first\<close>
  "startswith p s = (take (length p) s = p)"

definition endswith :: "string \<Rightarrow> string \<Rightarrow> bool" where
  \<comment> \<open>\<open>s.endswith(p)\<close>, the suffix first\<close>
  "endswith p s = (length p \<le> length s \<and> drop (length s - length p) s = p)"

fun contains :: "string \<Rightarrow> string \<Rightarrow> bool" where
  \<comment> \<open>\<open>sub in s\<close>, the substring first\<close>
  "contains sub [] = (sub = [])"
| "contains sub (c # cs) = (startswith sub (c # cs) \<or> contains sub cs)"

definition count_char :: "char \<Rightarrow> string \<Rightarrow> int" where
  \<comment> \<open>\<open>s.count(c)\<close> for a one-character \<open>c\<close>\<close>
  "count_char c s = int (length (filter (\<lambda>d. d = c) s))"

function split_aux :: "string \<Rightarrow> string \<Rightarrow> string \<Rightarrow> string list" where
  "split_aux sep cur [] = [rev cur]"
| "split_aux sep cur (c # cs) =
     (if sep \<noteq> [] \<and> startswith sep (c # cs)
      then rev cur # split_aux sep [] (drop (length sep) (c # cs))
      else split_aux sep (c # cur) cs)"
  by pat_completeness auto
termination
  by (relation "measure (\<lambda>(sep, cur, s). length s)") (auto simp: neq_Nil_conv)

definition split :: "string \<Rightarrow> string \<Rightarrow> string list" where
  \<comment> \<open>\<open>s.split(sep)\<close>, the separator first. Python raises ValueError on an empty separator;
      the source only splits on the constants \<open>::\<close> and \<open>:\<close>.\<close>
  "split sep s = split_aux sep [] s"

definition last_segment :: "string \<Rightarrow> string" where
  \<comment> \<open>\<open>s.split('::')[-1]\<close>\<close>
  "last_segment s = last (split ''::'' s)"

fun join :: "string \<Rightarrow> string list \<Rightarrow> string" where
  \<comment> \<open>\<open>sep.join(xs)\<close>\<close>
  "join sep [] = []"
| "join sep [x] = x"
| "join sep (x # y # ys) = x @ sep @ join sep (y # ys)"

section \<open>TypeConverter: convert_rust_type_to_c\<close>

definition TYPE_MAP :: "(string \<times> string) list" where
  "TYPE_MAP =
    [(''i32'', ''int32_t''), (''u32'', ''uint32_t''), (''i64'', ''int64_t''),
     (''u64'', ''uint64_t''), (''f32'', ''float''), (''f64'', ''double''),
     (''bool'', ''bool''), (''usize'', ''size_t''), (''isize'', ''intptr_t''),
     (''()'', ''void''), (''c_char'', ''char''), (''c_int'', ''int''),
     (''c_void'', ''void''), (''c_float'', ''float''), (''c_double'', ''double'')]"

definition const_inner :: "string \<Rightarrow> string" where
  \<comment> \<open>lines 43-49: the inner type of a stripped \<open>*const\<close> expression, with a qualified
      path cut to its last segment and \<open>c_char\<close> mapped to \<open>char\<close>\<close>
  "const_inner rust_type =
     (let inner = strip (drop 7 rust_type);
          inner = (if contains ''::'' inner \<and> \<not> startswith ''*'' inner
                   then last_segment inner else inner)
      in if inner = ''c_char'' then ''char'' else inner)"

definition mut_inner :: "string \<Rightarrow> string" where
  \<comment> \<open>line 58\<close>
  "mut_inner rust_type = strip (drop 5 rust_type)"

lemma length_dropWhile_le': "length (dropWhile P xs) \<le> length xs"
  by (induction xs) auto

lemma length_strip_le: "length (strip s) \<le> length s"
proof -
  have "length (rstrip (lstrip s)) \<le> length (lstrip s)"
    unfolding rstrip_def using length_dropWhile_le' [of isspace "rev (lstrip s)"] by simp
  also have "\<dots> \<le> length s"
    unfolding lstrip_def by (rule length_dropWhile_le')
  finally show ?thesis by (simp add: strip_def)
qed

lemma split_aux_nonempty: "split_aux sep cur s \<noteq> []"
  by (induction sep cur s rule: split_aux.induct) auto

lemma length_split_aux_last: "length (last (split_aux sep cur s)) \<le> length cur + length s"
proof (induction sep cur s rule: split_aux.induct)
  case (1 sep cur)
  then show ?case by simp
next
  case (2 sep cur c cs)
  show ?case
  proof (cases "sep \<noteq> [] \<and> startswith sep (c # cs)")
    case True
    have ne: "split_aux sep [] (drop (length sep) (c # cs)) \<noteq> []"
      by (rule split_aux_nonempty)
    from True 2(1) have "length (last (split_aux sep [] (drop (length sep) (c # cs))))
        \<le> length (drop (length sep) (c # cs))" by simp
    also have "\<dots> \<le> length cur + length (c # cs)" by simp
    finally show ?thesis using True ne by simp
  next
    case False
    with 2(2) show ?thesis by auto
  qed
qed

lemma length_last_segment_le: "length (last_segment s) \<le> length s"
  using length_split_aux_last [of "''::''" "[]" s] by (simp add: last_segment_def split_def)

lemma length_const_inner: "startswith ''*const '' t \<Longrightarrow> length (const_inner t) < length t"
proof -
  assume a: "startswith ''*const '' t"
  then have len: "7 \<le> length t"
    by (auto simp: startswith_def dest!: arg_cong [where f = length])
  let ?i = "strip (drop 7 t)"
  have l1: "length ?i \<le> length t - 7"
    using length_strip_le [of "drop 7 t"] by simp
  let ?j = "if contains ''::'' ?i \<and> \<not> startswith ''*'' ?i then last_segment ?i else ?i"
  have l2: "length ?j \<le> length ?i"
    using length_last_segment_le [of ?i] by simp
  have "length (if ?j = ''c_char'' then ''char'' else ?j) \<le> length ?j"
    by auto
  with l1 l2 len show ?thesis
    unfolding const_inner_def Let_def by linarith
qed

lemma length_mut_inner: "startswith ''*mut '' t \<Longrightarrow> length (mut_inner t) < length t"
proof -
  assume a: "startswith ''*mut '' t"
  then have len: "5 \<le> length t"
    by (auto simp: startswith_def dest!: arg_cong [where f = length])
  then show ?thesis
    using length_strip_le [of "drop 5 t"] by (simp add: mut_inner_def)
qed

function convert_rust_type_to_c :: "string \<Rightarrow> string" where
  "convert_rust_type_to_c s =
     (case map_of TYPE_MAP (strip s) of
        Some c \<Rightarrow> c
      | None \<Rightarrow>
          if startswith ''*const '' (strip s) then
            (if convert_rust_type_to_c (const_inner (strip s)) = ''char''
             then ''const char *''
             else convert_rust_type_to_c (const_inner (strip s)) @ '' const *'')
          else if startswith ''*mut '' (strip s) then
            convert_rust_type_to_c (mut_inner (strip s)) @ '' *''
          else if contains ''Handle'' (strip s) then ''int32_t''
          else if startswith ''fz_'' (strip s) \<or> startswith ''pdf_'' (strip s) then strip s
          else if contains ''::'' (strip s) then last_segment (strip s)
          else strip s)"
  by pat_completeness auto
termination
proof (relation "measure length")
  show "wf (measure length)" by simp
next
  fix s assume "startswith ''*const '' (strip s)"
  then show "(const_inner (strip s), s) \<in> measure length"
    using length_const_inner [of "strip s"] length_strip_le [of s] by simp
next
  fix s assume "startswith ''*const '' (strip s)"
  then show "(const_inner (strip s), s) \<in> measure length"
    using length_const_inner [of "strip s"] length_strip_le [of s] by simp
next
  fix s assume "startswith ''*mut '' (strip s)"
  then show "(mut_inner (strip s), s) \<in> measure length"
    using length_mut_inner [of "strip s"] length_strip_le [of s] by simp
qed

declare convert_rust_type_to_c.simps [simp del]

section \<open>SignatureParser: parse_rust_ffi_function\<close>

text \<open>
  The three regular expressions of the parser are written out as the leftmost-match
  searches that \<open>re.search\<close> performs. \<open>\s\<close> and \<open>\w\<close> are disjoint and so are \<open>\s\<close> and
  the characters that may follow it in each pattern, so every greedy repetition takes its
  whole run; the one place where backtracking changes the result is written out in
  \<open>match_ret_at\<close>.
\<close>

definition isword :: "char \<Rightarrow> bool" where
  \<comment> \<open>\<open>\w\<close> on ASCII\<close>
  "isword c = (c \<in> set ''abcdefghijklmnopqrstuvwxyzABCDEFGHIJKLMNOPQRSTUVWXYZ0123456789_'')"

definition match_fn_at :: "string \<Rightarrow> string option" where
  \<comment> \<open>\<open>fn\s+(\w+)\<close> anchored at the head of the string; the result is group 1\<close>
  "match_fn_at s =
     (if startswith ''fn'' s \<and> takeWhile isspace (drop 2 s) \<noteq> []
         \<and> takeWhile isword (dropWhile isspace (drop 2 s)) \<noteq> []
      then Some (takeWhile isword (dropWhile isspace (drop 2 s)))
      else None)"

fun search_fn :: "string \<Rightarrow> string option" where
  \<comment> \<open>\<open>re.search(r'fn\s+(\w+)', rust_sig)\<close>\<close>
  "search_fn [] = None"
| "search_fn (c # cs) =
     (case match_fn_at (c # cs) of Some n \<Rightarrow> Some n | None \<Rightarrow> search_fn cs)"

definition terminator_follows :: "string \<Rightarrow> bool" where
  \<comment> \<open>\<open>\s*(?:->|{|;)\<close> anchored at the head of the string\<close>
  "terminator_follows s =
     (startswith ''->'' (dropWhile isspace s) \<or> startswith ''{'' (dropWhile isspace s)
      \<or> startswith '';'' (dropWhile isspace s))"

fun lazy_group :: "string \<Rightarrow> string \<Rightarrow> string option" where
  \<comment> \<open>\<open>(.*?)\)\s*(?:->|{|;)\<close> with DOTALL, after the opening parenthesis: the group grows by
      one character until a closing parenthesis with a terminator follows. The first
      argument is the group so far, reversed.\<close>
  "lazy_group acc [] = None"
| "lazy_group acc (c # cs) =
     (if c = CHR 0x29 \<and> terminator_follows cs then Some (rev acc)
      else lazy_group (c # acc) cs)"

fun search_params :: "string \<Rightarrow> string option" where
  \<comment> \<open>\<open>re.search(r'\((.*?)\)\s*(?:->|{|;)', rust_sig, re.DOTALL)\<close>\<close>
  "search_params [] = None"
| "search_params (c # cs) =
     (if c = CHR 0x28
      then (case lazy_group [] cs of Some g \<Rightarrow> Some g | None \<Rightarrow> search_params cs)
      else search_params cs)"

definition ret_char :: "char \<Rightarrow> bool" where
  \<comment> \<open>the class \<open>[^{;]\<close>\<close>
  "ret_char c = (c \<noteq> CHR 0x7B \<and> c \<noteq> CHR 0x3B)"

definition match_ret_at :: "string \<Rightarrow> string option" where
  \<comment> \<open>\<open>->\s*([^{;]+)\<close> anchored at the head of the string. When nothing but white space
      stands before a brace, a semicolon or the end, \<open>\s*\<close> gives its last character back
      and the group is that one white-space character.\<close>
  "match_ret_at s =
     (if startswith ''->'' s then
        (if takeWhile ret_char (dropWhile isspace (drop 2 s)) \<noteq> []
         then Some (takeWhile ret_char (dropWhile isspace (drop 2 s)))
         else if takeWhile isspace (drop 2 s) \<noteq> []
         then Some [last (takeWhile isspace (drop 2 s))]
         else None)
      else None)"

fun search_ret :: "string \<Rightarrow> string option" where
  \<comment> \<open>\<open>re.search(r'->\s*([^{;]+)', rust_sig)\<close>\<close>
  "search_ret [] = None"
| "search_ret (c # cs) =
     (case match_ret_at (c # cs) of Some g \<Rightarrow> Some g | None \<Rightarrow> search_ret cs)"

fun split_params_loop :: "string \<Rightarrow> string list \<Rightarrow> string \<Rightarrow> int \<Rightarrow> string list" where
  \<comment> \<open>lines 139-151: the loop over \<open>params_str + ','\<close> with its state
      \<open>params\<close>, \<open>current\<close>, \<open>depth\<close>\<close>
  "split_params_loop [] params current depth = params"
| "split_params_loop (char # rest) params current depth =
     (if char \<in> set ''<(['' then split_params_loop rest params (current @ [char]) (depth + 1)
      else if char \<in> set ''>)]'' then split_params_loop rest params (current @ [char]) (depth - 1)
      else if char = CHR '','' \<and> depth = 0
      then split_params_loop rest (params @ [strip current]) [] depth
      else split_params_loop rest params (current @ [char]) depth)"

definition convert_param :: "string \<Rightarrow> string list" where
  \<comment> \<open>lines 154-167, one round of the loop: what is appended to \<open>c_params\<close>.
      \<open>param.split(':', 1)\<close> cuts at the first colon.\<close>
  "convert_param param =
     (if param = [] then []
      else if contains '':'' param
      then [convert_rust_type_to_c (strip (drop 1 (dropWhile (\<lambda>c. c \<noteq> CHR '':'') param)))
            @ '' '' @ strip (takeWhile (\<lambda>c. c \<noteq> CHR '':'') param)]
      else [])"

definition c_params_of :: "string \<Rightarrow> string list" where
  \<comment> \<open>lines 136-167: \<open>c_params\<close> from the stripped \<open>params_str\<close>\<close>
  "c_params_of params_str =
     (if params_str = [] then []
      else concat (map convert_param (split_params_loop (params_str @ '','') [] [] 0)))"

text \<open>
  The descriptor is the dictionary the parser returns, with its four keys; the key
  \<open>declaration\<close> is the field \<open>declaration_str\<close>.
\<close>

record func_info =
  name :: string
  params :: string
  return :: string
  declaration_str :: string

definition parse_rust_ffi_function :: "string \<Rightarrow> func_info option" where
  "parse_rust_ffi_function rust_sig =
     (case search_fn rust_sig of
        None \<Rightarrow> None
      | Some fn_name \<Rightarrow>
          (case search_params rust_sig of
             None \<Rightarrow> None
           | Some g \<Rightarrow>
               (let params_str = strip g;
                    ret_type = (case search_ret rust_sig of Some r \<Rightarrow> strip r | None \<Rightarrow> ''()'');
                    c_params = c_params_of params_str;
                    c_params_str = (if c_params \<noteq> [] then join '', '' c_params else ''void'');
                    c_ret_type = convert_rust_type_to_c ret_type
                in Some \<lparr>name = fn_name, params = c_params_str, return = c_ret_type,
                         declaration_str = c_ret_type @ '' '' @ fn_name @ ''('' @ c_params_str @ '');''\<rparr>)))"

section \<open>SignatureExtractor: extract_function_signature\<close>

definition is_fn_line :: "string \<Rightarrow> bool" where
  \<comment> \<open>line 94\<close>
  "is_fn_line line = (contains ''pub'' line \<and> contains ''extern'' line \<and> contains ''fn '' line)"

definition paren_delta :: "string \<Rightarrow> int" where
  \<comment> \<open>line 101\<close>
  "paren_delta line = count_char (CHR 0x28) line - count_char (CHR 0x29) line"

definition skipped :: "string \<Rightarrow> bool" where
  \<comment> \<open>line 89, on the stripped line: empty or a comment\<close>
  "skipped line = (line = [] \<or> startswith ''//'' line)"

definition sig_complete :: "int \<Rightarrow> string \<Rightarrow> bool" where
  \<comment> \<open>lines 104 and 108, with the depth after the line was counted: either test breaks\<close>
  \<open>sig_complete depth line =
     ((depth = 0 \<and> (contains ''{'' line \<or> endswith '';'' line))
      \<or> (depth = 0 \<and> \<not> contains ''->'' line))\<close>

function extract_loop ::
  "string list \<Rightarrow> nat \<Rightarrow> string list \<Rightarrow> int \<Rightarrow> bool \<Rightarrow> string list \<times> nat" where
  "extract_loop lines idx sig_lines paren_depth found_fn =
     (if idx < length lines then
        (if skipped (strip (lines ! idx))
         then extract_loop lines (idx + 1) sig_lines paren_depth found_fn
         else if found_fn \<or> is_fn_line (strip (lines ! idx)) then
           (if sig_complete (paren_depth + paren_delta (strip (lines ! idx))) (strip (lines ! idx))
            then (sig_lines @ [strip (lines ! idx)], idx)
            else extract_loop lines (idx + 1) (sig_lines @ [strip (lines ! idx)])
                   (paren_depth + paren_delta (strip (lines ! idx))) True)
         else extract_loop lines (idx + 1) sig_lines paren_depth False)
      else (sig_lines, idx))"
  by pat_completeness auto
termination
  by (relation "measure (\<lambda>(lines, idx, sig_lines, paren_depth, found_fn). length lines - idx)")
     auto

declare extract_loop.simps [simp del]

definition extract_function_signature :: "string list \<Rightarrow> nat \<Rightarrow> string \<times> nat" where
  "extract_function_signature lines start_idx =
     (join '' '' (fst (extract_loop lines start_idx [] 0 False)),
      snd (extract_loop lines start_idx [] 0 False))"

lemma extract_loop_idx_ge: "idx \<le> snd (extract_loop lines idx sig_lines paren_depth found_fn)"
proof (induction lines idx sig_lines paren_depth found_fn rule: extract_loop.induct)
  case (1 lines idx sig_lines paren_depth found_fn)
  show ?case
  proof (cases "idx < length lines")
    case False
    then show ?thesis by (simp add: extract_loop.simps [of lines idx])
  next
    case True
    note lt = this
    show ?thesis
    proof (cases "skipped (strip (lines ! idx))")
      case True
      with lt 1(1) show ?thesis
        by (simp add: extract_loop.simps [of lines idx])
    next
      case False
      note ns = this
      show ?thesis
      proof (cases "found_fn \<or> is_fn_line (strip (lines ! idx))")
        case True
        with lt ns 1(2) show ?thesis
          by (cases "sig_complete (paren_depth + paren_delta (strip (lines ! idx)))
                       (strip (lines ! idx))")
             (auto simp: extract_loop.simps [of lines idx])
      next
        case False
        with lt ns 1(3) show ?thesis
          by (auto simp: extract_loop.simps [of lines idx])
      qed
    qed
  qed
qed

definition is_marker :: "string \<Rightarrow> bool" where
  \<comment> \<open>line 191\<close>
  "is_marker line = (line \<in> set [''#[unsafe(no_mangle)]'', ''#[no_mangle]''])"

definition parsed :: "string \<Rightarrow> func_info list" where
  \<comment> \<open>lines 195-198: what one extracted signature adds to \<open>functions\<close>\<close>
  "parsed rust_sig =
     (if rust_sig \<noteq> []
      then (case parse_rust_ffi_function rust_sig of Some func_info \<Rightarrow> [func_info] | None \<Rightarrow> [])
      else [])"

function extract_ffi_loop :: "string list \<Rightarrow> nat \<Rightarrow> func_info list \<Rightarrow> func_info list" where
  \<comment> \<open>lines 187-202: the loop over the lines of one file, with its state \<open>i\<close>, \<open>functions\<close>\<close>
  "extract_ffi_loop lines i functions =
     (if i < length lines then
        (if is_marker (strip (lines ! i))
         then extract_ffi_loop lines (snd (extract_function_signature lines (i + 1)) + 1)
                (functions @ parsed (fst (extract_function_signature lines (i + 1))))
         else extract_ffi_loop lines (i + 1) functions)
      else functions)"
  by pat_completeness auto
termination
proof (relation "measure (\<lambda>(lines, i, fs). length lines - i)")
  show "wf (measure (\<lambda>(lines, i, fs). length lines - i))" by simp
next
  fix lines :: "string list" and i :: nat and fs :: "func_info list"
  assume "i < length lines"
  moreover have "i + 1 \<le> snd (extract_function_signature lines (i + 1))"
    unfolding extract_function_signature_def snd_conv by (rule extract_loop_idx_ge)
  ultimately show "((lines, snd (extract_function_signature lines (i + 1)) + 1,
      fs @ parsed (fst (extract_function_signature lines (i + 1)))), lines, i, fs)
    \<in> measure (\<lambda>(lines, i, fs). length lines - i)"
    by simp
next
  fix lines :: "string list" and i :: nat and fs :: "func_info list"
  assume "i < length lines"
  then show "((lines, i + 1, fs), lines, i, fs)
    \<in> measure (\<lambda>(lines, i, fs). length lines - i)"
    by simp
qed

declare extract_ffi_loop.simps [simp del]

definition extract_ffi_functions :: "string list \<Rightarrow> func_info list" where
  \<comment> \<open>the lines are those \<open>readlines\<close> returned for the file\<close>
  "extract_ffi_functions lines = extract_ffi_loop lines 0 []"

section \<open>HeaderRenderer: generate_module_header, generate_enhanced_header\<close>

definition upper_char :: "char \<Rightarrow> char" where
  "upper_char c =
     (case map_of (zip ''abcdefghijklmnopqrstuvwxyz'' ''ABCDEFGHIJKLMNOPQRSTUVWXYZ'') c of
        Some u \<Rightarrow> u | None \<Rightarrow> c)"

definition lower_char :: "char \<Rightarrow> char" where
  "lower_char c =
     (case map_of (zip ''ABCDEFGHIJKLMNOPQRSTUVWXYZ'' ''abcdefghijklmnopqrstuvwxyz'') c of
        Some l \<Rightarrow> l | None \<Rightarrow> c)"

definition upper :: "string \<Rightarrow> string" where
  \<comment> \<open>\<open>s.upper()\<close>\<close>
  "upper s = map upper_char s"

definition capitalize :: "string \<Rightarrow> string" where
  \<comment> \<open>\<open>s.capitalize()\<close>: the first character upper case, the others lower case\<close>
  "capitalize s = (case s of [] \<Rightarrow> [] | c # cs \<Rightarrow> upper_char c # map lower_char cs)"

fun str_nat :: "nat \<Rightarrow> string" where
  \<comment> \<open>the decimal digits Python prints for a length\<close>
  "str_nat n =
     (if n < 10 then [''0123456789'' ! n]
      else str_nat (n div 10) @ [''0123456789'' ! (n mod 10)])"

declare str_nat.simps [simp del]

definition text_lines :: "string list \<Rightarrow> string" where
  \<comment> \<open>the text of a triple-quoted literal: every line with its line feed\<close>
  "text_lines ls = concat (map (\<lambda>l. l @ [CHR 0x0A]) ls)"

definition declarations :: "func_info list \<Rightarrow> string" where
  \<comment> \<open>lines 233-234 and 275-276; Python's \<open>sorted\<close> is stable, as \<open>sort_key\<close> is\<close>
  "declarations functions =
     concat (map (\<lambda>func. declaration_str func @ [CHR 0x0A]) (sort_key name functions))"

definition generate_module_header :: "string \<Rightarrow> func_info list \<Rightarrow> bool \<Rightarrow> string" where
  \<open>generate_module_header module_name functions is_pdf =
     (let prefix = (if is_pdf then ''pdf'' else ''fitz'');
          guard = ''MUPDF_'' @ upper prefix @ ''_'' @ upper module_name @ ''_H''
      in text_lines
           [''// MicroPDF - MuPDF API Compatible C Header'',
           ''// Auto-generated from Rust FFI - DO NOT EDIT MANUALLY'',
           ''// Module: '' @ module_name,
           '''',
           ''#ifndef '' @ guard,
           ''#define '' @ guard,
           '''',
           ''#include <stdint.h>'',
           ''#include <stddef.h>'',
           ''#include <stdbool.h>'',
           '''',
           ''#ifdef __cplusplus'',
           ''extern "C" {'',
           ''#endif'',
           '''',
           ''// ============================================================================'',
           ''// '' @ capitalize module_name @ '' Functions ('' @ str_nat (length functions) @ '' total)'',
           ''// ============================================================================'',
           '''']
         @ declarations functions
         @ text_lines
           ['''',
           ''#ifdef __cplusplus'',
           ''}'',
           ''#endif'',
           '''',
           ''#endif /* '' @ guard @ '' */''])\<close>

definition generate_enhanced_header :: "string \<Rightarrow> func_info list \<Rightarrow> string" where
  \<open>generate_enhanced_header module_name functions =
     (let guard = ''MICROPDF_'' @ upper module_name @ ''_H''
      in text_lines
           [''// MicroPDF - Enhanced/Extended Functions'',
           ''// Auto-generated from Rust FFI - DO NOT EDIT MANUALLY'',
           ''// Module: '' @ module_name,
           ''//'',
           ''// These are MicroPDF-specific extensions beyond MuPDF compatibility.'',
           ''// All functions are prefixed with mp_* to distinguish from MuPDF functions.'',
           '''',
           ''#ifndef '' @ guard,
           ''#define '' @ guard,
           '''',
           ''#include <stdint.h>'',
           ''#include <stddef.h>'',
           ''#include <stdbool.h>'',
           '''',
           ''#ifdef __cplusplus'',
           ''extern "C" {'',
           ''#endif'',
           '''',
           ''// ============================================================================'',
           ''// '' @ capitalize module_name @ '' Functions ('' @ str_nat (length functions) @ '' total)'',
           ''// ============================================================================'',
           '''']
         @ declarations functions
         @ text_lines
           ['''',
           ''#ifdef __cplusplus'',
           ''}'',
           ''#endif'',
           '''',
           ''#endif /* '' @ guard @ '' */''])\<close>

section \<open>ModuleClassifier and MasterHeaderAggregator: main, generate_master_headers\<close>

definition fitz_modules :: "string list" where
  \<comment> \<open>lines 300-304; a set in the source, only tested for membership\<close>
  "fitz_modules =
    [''geometry'', ''buffer'', ''stream'', ''output'', ''colorspace'',
     ''pixmap'', ''font'', ''image'', ''path'', ''text'', ''device'',
     ''display_list'', ''link'', ''archive'', ''cookie'', ''context'']"

definition pdf_modules :: "string list" where
  \<comment> \<open>line 306\<close>
  "pdf_modules = [''annot'', ''form'', ''document'', ''pdf_object'']"

definition is_pdf_module :: "string \<Rightarrow> func_info list \<Rightarrow> bool" where
  \<comment> \<open>line 350, the value of \<open>is_pdf\<close>\<close>
  "is_pdf_module module functions =
     (module \<in> set pdf_modules \<or> list_ex (\<lambda>f. startswith ''pdf_'' (name f)) functions)"

definition subdir_of :: "string \<Rightarrow> func_info list \<Rightarrow> string" where
  \<comment> \<open>lines 346-351\<close>
  "subdir_of module functions =
     (if module = ''enhanced'' then ''../micropdf''
      else if is_pdf_module module functions then ''pdf'' else ''fitz'')"

definition header_content_of :: "string \<Rightarrow> func_info list \<Rightarrow> string" where
  \<comment> \<open>lines 346-352\<close>
  "header_content_of module functions =
     (if module = ''enhanced'' then generate_enhanced_header module functions
      else generate_module_header module functions (is_pdf_module module functions))"

definition write_module :: "string \<times> func_info list \<Rightarrow> string \<times> string" where
  \<comment> \<open>lines 344-357, one round of the loop: the path written and the text written to it;
      \<open>include_dir\<close> is \<open>include/mupdf\<close>\<close>
  "write_module entry =
     (''include/mupdf/'' @ subdir_of (fst entry) (snd entry) @ ''/'' @ fst entry @ ''.h'',
      header_content_of (fst entry) (snd entry))"

definition fitz_includes :: "string list \<Rightarrow> string list \<Rightarrow> string list \<Rightarrow> string list" where
  \<comment> \<open>lines 382-387: the include lines of the core umbrella, in order\<close>
  \<open>fitz_includes all_modules fitz_mods pdf_mods =
     map (\<lambda>module. ''#include "mupdf/fitz/'' @ module @ ''.h"'')
       (filter (\<lambda>module. module \<noteq> ''enhanced''
                  \<and> (module \<in> set fitz_mods
                      \<or> \<not> list_ex (\<lambda>_. module \<in> set pdf_mods) [1::nat]))
          (sort all_modules))\<close>

definition pdf_includes :: "string list \<Rightarrow> string list \<Rightarrow> string list" where
  \<comment> \<open>lines 416-418: the include lines of the document umbrella, in order\<close>
  \<open>pdf_includes all_modules pdf_mods =
     map (\<lambda>module. ''#include "mupdf/pdf/'' @ module @ ''.h"'')
       (filter (\<lambda>module. module \<in> set pdf_mods) (sort all_modules))\<close>

definition fitz_header :: "string list \<Rightarrow> string list \<Rightarrow> string list \<Rightarrow> string" where
  \<open>fitz_header all_modules fitz_mods pdf_mods =
     text_lines
       [''// MicroPDF - MuPDF API Compatible C Header'',
       ''// Master header for fitz (core) functionality'',
       '''',
       ''#ifndef MUPDF_FITZ_H'',
       ''#define MUPDF_FITZ_H'',
       '''',
       ''#ifdef __cplusplus'',
       ''extern "C" {'',
       ''#endif'',
       '''']
     @ text_lines (fitz_includes all_modules fitz_mods pdf_mods)
     @ text_lines
       ['''',
       ''#ifdef __cplusplus'',
       ''}'',
       ''#endif'',
       '''',
       ''#endif /* MUPDF_FITZ_H */'']\<close>

definition pdf_header :: "string list \<Rightarrow> string list \<Rightarrow> string" where
  \<open>pdf_header all_modules pdf_mods =
     text_lines
       [''// MicroPDF - MuPDF API Compatible C Header'',
       ''// Master header for PDF-specific functionality'',
       '''',
       ''#ifndef MUPDF_PDF_H'',
       ''#define MUPDF_PDF_H'',
       '''',
       ''#include "mupdf/fitz.h"'',
       '''',
       ''#ifdef __cplusplus'',
       ''extern "C" {'',
       ''#endif'',
       '''']
     @ text_lines (pdf_includes all_modules pdf_mods)
     @ text_lines
       ['''',
       ''#ifdef __cplusplus'',
       ''}'',
       ''#endif'',
       '''',
       ''#endif /* MUPDF_PDF_H */'']\<close>

definition mupdf_header :: string where
  \<open>mupdf_header =
     text_lines
       [''// MicroPDF - MuPDF API Compatible C Header'',
       ''// Single include header for all MuPDF functionality'',
       '''',
       ''#ifndef MUPDF_H'',
       ''#define MUPDF_H'',
       '''',
       ''#include "mupdf/fitz.h"'',
       ''#include "mupdf/pdf.h"'',
       '''',
       ''#endif /* MUPDF_H */'']\<close>

definition generate_master_headers ::
  "string list \<Rightarrow> string list \<Rightarrow> string list \<Rightarrow> (string \<times> string) list" where
  \<comment> \<open>the three files written, in order, as path and text\<close>
  "generate_master_headers all_modules fitz_mods pdf_mods =
     [(''include/mupdf/fitz.h'', fitz_header all_modules fitz_mods pdf_mods),
      (''include/mupdf/pdf.h'', pdf_header all_modules pdf_mods),
      (''include/mupdf.h'', mupdf_header)]"

definition main_writes :: "(string \<times> func_info list) list \<Rightarrow> (string \<times> string) list" where
  \<comment> \<open>lines 344-362: every file \<open>main\<close> writes, in order, from the dictionary
      \<open>all_functions\<close> given in its insertion order\<close>
  "main_writes all_functions =
     map write_module all_functions
     @ generate_master_headers (map fst all_functions) fitz_modules pdf_modules"

definition files_after :: "(string \<times> string) list \<Rightarrow> string \<Rightarrow> string option" where
  \<comment> \<open>the files on disk after a sequence of full-overwrite writes: the last write to a
      path is its content\<close>
  "files_after writes = map_of (rev writes)"

definition up_to_order :: "string \<times> func_info list \<Rightarrow> string \<times> func_info multiset" where
  \<comment> \<open>an entry of \<open>all_functions\<close> without the order in which its functions accumulated\<close>
  "up_to_order entry = (fst entry, mset (snd entry))"

section \<open>A signature among the lines, as the specification describes it\<close>





section \<open>Well-formed pointer types and their C form\<close>

text \<open>
  The type expressions the converter is written for: a name of word characters, or the unit
  type \<open>()\<close>, under any number of \<open>*const\<close> and \<open>*mut\<close> qualifiers. \<open>render\<close> is the Rust text of such a type.
  \<open>c_form\<close> follows the specification of the TypeConverter: the primitive table, the handle
  rule and pass-through for a name, the string idiom or \<open>const *\<close> for a pointer to const,
  a plain \<open>*\<close> for a pointer to mutable. It is compared with the converter of the source below.
\<close>

datatype rust_type = Named string | ConstPtr rust_type | MutPtr rust_type

fun render :: "rust_type \<Rightarrow> string" where
  "render (Named n) = n"
| "render (ConstPtr t) = ''*const '' @ render t"
| "render (MutPtr t) = ''*mut '' @ render t"

fun well_formed :: "rust_type \<Rightarrow> bool" where
  "well_formed (Named n) = (n = ''()'' \<or> (n \<noteq> [] \<and> list_all isword n))"
| "well_formed (ConstPtr t) = well_formed t"
| "well_formed (MutPtr t) = well_formed t"

fun c_form :: "rust_type \<Rightarrow> string" where
  "c_form (Named n) =
     (case map_of TYPE_MAP n of
        Some c \<Rightarrow> c
      | None \<Rightarrow> if contains ''Handle'' n then ''int32_t'' else n)"
| "c_form (ConstPtr t) =
     (if c_form t = ''char'' then ''const char *'' else c_form t @ '' const *'')"
| "c_form (MutPtr t) = c_form t @ '' *''"

fun const_chain :: "nat \<Rightarrow> rust_type \<Rightarrow> rust_type" where
  \<comment> \<open>\<open>n\<close> pointer-to-const qualifiers around a type\<close>
  "const_chain 0 t = t"
| "const_chain (Suc n) t = ConstPtr (const_chain n t)"

definition stable_c :: "string \<Rightarrow> bool" where
  \<comment> \<open>a C type text on which the converter changes nothing: it begins with a word
      character, ends with a word character or a star, has no colon and no handle
      marker, and is no key of the table other than one mapped to itself\<close>
  "stable_c r = (r \<noteq> [] \<and> isword (hd r) \<and> (isword (last r) \<or> last r = CHR ''*'')
     \<and> CHR '':'' \<notin> set r \<and> \<not> contains ''Handle'' r
     \<and> (map_of TYPE_MAP r = None \<or> map_of TYPE_MAP r = Some r))"


section \<open>Facts about the string operations\<close>

lemma startswith_iff: "startswith p s \<longleftrightarrow> (\<exists>b. s = p @ b)"
  unfolding startswith_def
  by (metis append_eq_conv_conj append_take_drop_id)

lemma contains_iff: "contains sub s \<longleftrightarrow> (\<exists>a b. s = a @ sub @ b)"
proof (induction s)
  case Nil
  show ?case by auto
next
  case (Cons c cs)
  show ?case
  proof
    assume "contains sub (c # cs)"
    then consider "startswith sub (c # cs)" | "contains sub cs" by auto
    then show "\<exists>a b. c # cs = a @ sub @ b"
    proof cases
      case 1
      then obtain b where "c # cs = sub @ b" by (auto simp: startswith_iff)
      then have "c # cs = [] @ sub @ b" by simp
      then show ?thesis by blast
    next
      case 2
      with Cons obtain a b where "cs = a @ sub @ b" by auto
      then have "c # cs = (c # a) @ sub @ b" by simp
      then show ?thesis by blast
    qed
  next
    assume "\<exists>a b. c # cs = a @ sub @ b"
    then obtain a b where ab: "c # cs = a @ sub @ b" by auto
    show "contains sub (c # cs)"
    proof (cases a)
      case Nil
      with ab have "startswith sub (c # cs)" by (auto simp: startswith_iff)
      then show ?thesis by simp
    next
      case (Cons a0 a')
      with ab have "cs = a' @ sub @ b" by simp
      with Cons.IH have "contains sub cs" by blast
      then show ?thesis by simp
    qed
  qed
qed

lemma contains_set: "contains sub s \<Longrightarrow> set sub \<subseteq> set s"
  by (auto simp: contains_iff)

lemma contains_sep:
  assumes "c \<notin> set sub" and "contains sub (x @ c # y)"
  shows "contains sub x \<or> contains sub y"
proof -
  from assms(2) obtain a b where ab: "x @ c # y = a @ sub @ b" by (auto simp: contains_iff)
  then consider us where "x = a @ us" "us @ c # y = sub @ b"
    | us where "x @ us = a" "c # y = us @ sub @ b"
    by (auto simp: append_eq_append_conv2)
  then show ?thesis
  proof cases
    case 1
    from 1(2) consider vs where "us = sub @ vs" | vs where "us @ vs = sub" "c # y = vs @ b"
      by (auto simp: append_eq_append_conv2)
    then show ?thesis
    proof cases
      case 1
      with \<open>x = a @ us\<close> have "x = a @ sub @ vs" by simp
      then show ?thesis by (auto simp: contains_iff)
    next
      case 2
      show ?thesis
      proof (cases vs)
        case Nil
        with 2 \<open>x = a @ us\<close> have "x = a @ sub @ []" by simp
        then show ?thesis unfolding contains_iff by blast
      next
        case (Cons v vs')
        with 2 have "c \<in> set sub" by auto
        with assms(1) show ?thesis by simp
      qed
    qed
  next
    case 2
    show ?thesis
    proof (cases us)
      case Nil
      with 2 have eq: "c # y = sub @ b" by simp
      show ?thesis
      proof (cases sub)
        case Nil
        have "x = x @ [] @ []" by simp
        then show ?thesis unfolding Nil contains_iff by blast
      next
        case (Cons s0 sub')
        with eq have "c \<in> set sub" by auto
        with assms(1) show ?thesis by simp
      qed
    next
      case (Cons u us')
      with 2 have "y = us' @ sub @ b" by simp
      then show ?thesis unfolding contains_iff by blast
    qed
  qed
qed

lemma lstrip_id: "s \<noteq> [] \<Longrightarrow> \<not> isspace (hd s) \<Longrightarrow> lstrip s = s"
  by (cases s) (auto simp: lstrip_def)

lemma rstrip_id: "s \<noteq> [] \<Longrightarrow> \<not> isspace (last s) \<Longrightarrow> rstrip s = s"
  by (cases s rule: rev_cases) (auto simp: rstrip_def)

lemma strip_id: "s \<noteq> [] \<Longrightarrow> \<not> isspace (hd s) \<Longrightarrow> \<not> isspace (last s) \<Longrightarrow> strip s = s"
  by (simp add: strip_def lstrip_id rstrip_id)

lemma isword_not_space: "isword c \<Longrightarrow> \<not> isspace c"
  by (auto simp: isword_def isspace_def)

lemma isword_not_special: "isword c \<Longrightarrow> c \<noteq> CHR ''*'' \<and> c \<noteq> CHR '':'' \<and> c \<noteq> CHR '' ''"
  by (auto simp: isword_def)

section \<open>The converter on well-formed pointer types\<close>

lemma startswith_hd: "startswith (p # ps) s \<Longrightarrow> s \<noteq> [] \<and> hd s = p"
  by (auto simp: startswith_iff)

lemma startswith_append: "startswith p (p @ x)"
  by (simp add: startswith_def)

lemma map_of_TYPE_MAP_star: "map_of TYPE_MAP (CHR ''*'' # x) = None"
  by (simp add: TYPE_MAP_def)

lemma convert_fixed:
  assumes ne: "r \<noteq> []" and h: "\<not> isspace (hd r)" and l: "\<not> isspace (last r)"
    and star: "hd r \<noteq> CHR ''*''"
    and tm: "map_of TYPE_MAP r = None \<or> map_of TYPE_MAP r = Some r"
    and hdl: "\<not> contains ''Handle'' r" and col: "CHR '':'' \<notin> set r"
  shows "convert_rust_type_to_c r = r"
proof -
  have s: "strip r = r" using ne h l by (rule strip_id)
  have c1: "\<not> startswith ''*const '' r" using star by (auto dest: startswith_hd)
  have c2: "\<not> startswith ''*mut '' r" using star by (auto dest: startswith_hd)
  have c3: "\<not> contains ''::'' r" using col by (auto dest: contains_set)
  from tm show ?thesis
    by (auto simp: convert_rust_type_to_c.simps [of r] s c1 c2 c3 hdl)
qed

lemma word_facts:
  assumes "n \<noteq> []" "list_all isword n"
  shows "isword (hd n)" "isword (last n)" "CHR '':'' \<notin> set n" "CHR ''*'' \<notin> set n" "CHR '' '' \<notin> set n"
  using assms by (auto simp: list_all_iff dest: isword_not_special)

lemma convert_named:
  assumes "n \<noteq> []" "list_all isword n"
  shows "convert_rust_type_to_c n = c_form (Named n)"
proof -
  note w = word_facts [OF assms]
  have s: "strip n = n" using assms(1) w(1,2) by (simp add: strip_id isword_not_space)
  have c1: "\<not> startswith ''*const '' n" using w(1) by (auto dest!: startswith_hd isword_not_special)
  have c2: "\<not> startswith ''*mut '' n" using w(1) by (auto dest!: startswith_hd isword_not_special)
  have c3: "\<not> contains ''::'' n" using w(3) by (auto dest: contains_set)
  show ?thesis
    by (auto simp: convert_rust_type_to_c.simps [of n] s c1 c2 c3 split: option.splits)
qed

lemma render_facts:
  "well_formed t \<Longrightarrow> render t \<noteq> [] \<and> \<not> isspace (hd (render t))
     \<and> \<not> isspace (last (render t)) \<and> CHR '':'' \<notin> set (render t)"
proof (induction t)
  case (Named n)
  then consider "n = ''()''" | "n \<noteq> []" "list_all isword n" by auto
  then show ?case
  proof cases
    case 1
    then show ?thesis by (simp add: isspace_def)
  next
    case 2
    then show ?thesis using word_facts [of n] by (simp add: isword_not_space)
  qed
next
  case (ConstPtr t)
  then show ?case by (simp add: isspace_def)
next
  case (MutPtr t)
  then show ?case by (simp add: isspace_def)
qed

lemma strip_render: "well_formed t \<Longrightarrow> strip (render t) = render t"
  using render_facts [of t] by (simp add: strip_id)

lemma convert_char: "convert_rust_type_to_c ''char'' = ''char''"
  by code_simp

lemma convert_c_char: "convert_rust_type_to_c ''c_char'' = ''char''"
  by code_simp

lemma const_inner_render:
  assumes "well_formed t"
  shows "const_inner (''*const '' @ render t) = (if render t = ''c_char'' then ''char'' else render t)"
proof -
  have "\<not> contains ''::'' (render t)"
    using render_facts [OF assms] by (auto dest: contains_set)
  then show ?thesis
    by (simp add: const_inner_def strip_render [OF assms] Let_def)
qed

lemma convert_render: "well_formed t \<Longrightarrow> convert_rust_type_to_c (render t) = c_form t"
proof (induction t)
  case (Named n)
  then consider "n = ''()''" | "n \<noteq> []" "list_all isword n" by auto
  then show ?case
  proof cases
    case 1
    have "convert_rust_type_to_c ''()'' = ''void''" by code_simp
    with 1 show ?thesis by (simp add: TYPE_MAP_def)
  next
    case 2
    then show ?thesis using convert_named [of n] by simp
  qed
next
  case (ConstPtr t)
  then have wf: "well_formed t" and IH: "convert_rust_type_to_c (render t) = c_form t" by simp_all
  let ?s = "''*const '' @ render t"
  have s: "strip ?s = ?s"
  proof (rule strip_id)
    show "?s \<noteq> []" by simp
    show "\<not> isspace (hd ?s)" by (simp add: isspace_def)
    show "\<not> isspace (last ?s)" using render_facts [OF wf] by simp
  qed
  have tm: "map_of TYPE_MAP ?s = None" by (simp add: map_of_TYPE_MAP_star)
  have sw: "startswith ''*const '' ?s" by (rule startswith_append)
  have inner: "convert_rust_type_to_c (const_inner ?s) = c_form t"
  proof (cases "render t = ''c_char''")
    case True
    then have "const_inner ?s = ''char''" using const_inner_render [OF wf] by simp
    moreover from True IH have "c_form t = ''char''" by (simp add: convert_c_char)
    ultimately show ?thesis by (simp only: convert_char)
  next
    case False
    then have "const_inner ?s = render t" using const_inner_render [OF wf] by simp
    with IH show ?thesis by simp
  qed
  show ?case
    by (subst convert_rust_type_to_c.simps) (simp only: render.simps s tm sw inner option.case if_True c_form.simps)
next
  case (MutPtr t)
  then have wf: "well_formed t" and IH: "convert_rust_type_to_c (render t) = c_form t" by simp_all
  let ?s = "''*mut '' @ render t"
  have s: "strip ?s = ?s"
  proof (rule strip_id)
    show "?s \<noteq> []" by simp
    show "\<not> isspace (hd ?s)" by (simp add: isspace_def)
    show "\<not> isspace (last ?s)" using render_facts [OF wf] by simp
  qed
  have tm: "map_of TYPE_MAP ?s = None" by (simp add: map_of_TYPE_MAP_star)
  have nsw: "\<not> startswith ''*const '' ?s" by (simp add: startswith_def)
  have sw: "startswith ''*mut '' ?s" by (rule startswith_append)
  have inner: "mut_inner ?s = render t"
    by (simp add: mut_inner_def strip_render [OF wf])
  show ?case
    by (subst convert_rust_type_to_c.simps) (simp only: render.simps s tm sw nsw inner option.case if_True if_False c_form.simps IH)
qed

lemma stable_c_fixed: "stable_c r \<Longrightarrow> convert_rust_type_to_c r = r"
proof -
  assume a: "stable_c r"
  have sp: "\<not> isspace (CHR ''*'')" by (simp add: isspace_def)
  show ?thesis
  proof (rule convert_fixed)
    show "r \<noteq> []" using a by (simp add: stable_c_def)
    show "\<not> isspace (hd r)" using a by (simp add: stable_c_def isword_not_space)
    show "\<not> isspace (last r)" using a sp by (auto simp: stable_c_def isword_not_space)
    show "hd r \<noteq> CHR ''*''" using a by (auto simp: stable_c_def dest: isword_not_special)
    show "map_of TYPE_MAP r = None \<or> map_of TYPE_MAP r = Some r" using a by (simp add: stable_c_def)
    show "\<not> contains ''Handle'' r" using a by (simp add: stable_c_def)
    show "CHR '':'' \<notin> set r" using a by (simp add: stable_c_def)
  qed
qed

lemma stable_table: "list_all stable_c (map snd TYPE_MAP)"
  by code_simp

lemma stable_consts: "stable_c ''int32_t''" "stable_c ''const char *''"
  by code_simp+

lemma TYPE_MAP_keys_last: "list_all (\<lambda>k. last k \<noteq> CHR ''*'') (map fst TYPE_MAP)"
  by code_simp

lemma map_of_TYPE_MAP_ptr: "last x = CHR ''*'' \<Longrightarrow> map_of TYPE_MAP x = None"
proof -
  assume a: "last x = CHR ''*''"
  have "x \<notin> set (map fst TYPE_MAP)"
    using TYPE_MAP_keys_last a by (auto simp: list_all_iff)
  then show ?thesis by (simp add: map_of_eq_None_iff)
qed

lemma no_handle_suffixes:
  "\<not> contains ''Handle'' ''const *''" "\<not> contains ''Handle'' ''*''"
  by code_simp+

lemma stable_ptr:
  assumes "stable_c r" and y: "\<not> contains ''Handle'' y" "y \<noteq> []" "last y = CHR ''*''"
     "CHR '':'' \<notin> set y"
  shows "stable_c (r @ CHR '' '' # y)"
proof -
  have "\<not> contains ''Handle'' (r @ CHR '' '' # y)"
    using contains_sep [of "CHR '' ''" "''Handle''" r y] assms by (auto simp: stable_c_def)
  moreover have "map_of TYPE_MAP (r @ CHR '' '' # y) = None"
    using y by (intro map_of_TYPE_MAP_ptr) simp
  ultimately show ?thesis
    using assms by (auto simp: stable_c_def)
qed

lemma stable_c_form: "well_formed t \<Longrightarrow> stable_c (c_form t)"
proof (induction t)
  case (Named n)
  then have w: "n = ''()'' \<or> (n \<noteq> [] \<and> list_all isword n)" by simp
  show ?case
  proof (cases "map_of TYPE_MAP n")
    case (Some c)
    then have "c \<in> set (map snd TYPE_MAP)" by (force dest: map_of_SomeD)
    with stable_table have "stable_c c" by (auto simp: list_all_iff)
    with Some show ?thesis by simp
  next
    case None
    then have "n \<noteq> ''()''" by (auto simp: TYPE_MAP_def)
    with w have ne: "n \<noteq> []" and lw: "list_all isword n" by simp_all
    show ?thesis
    proof (cases "contains ''Handle'' n")
      case True
      with None show ?thesis by (simp add: stable_consts)
    next
      case False
      with None word_facts [OF ne lw] ne show ?thesis by (simp add: stable_c_def)
    qed
  qed
next
  case (ConstPtr t)
  then have st: "stable_c (c_form t)" by simp
  have "stable_c (c_form t @ CHR '' '' # ''const *'')"
    by (rule stable_ptr [OF st no_handle_suffixes(1)]) simp_all
  then show ?case by (simp add: stable_consts)
next
  case (MutPtr t)
  then have st: "stable_c (c_form t)" by simp
  have "stable_c (c_form t @ CHR '' '' # ''*'')"
    by (rule stable_ptr [OF st no_handle_suffixes(2)]) simp_all
  then show ?case by simp
qed

lemma convert_idempotent_on_pointer_types:
  "well_formed t \<Longrightarrow>
     convert_rust_type_to_c (convert_rust_type_to_c (render t)) = convert_rust_type_to_c (render t)"
  by (simp add: convert_render stable_c_fixed stable_c_form)

lemma concat_replicate_comm: "concat (replicate n s) @ s = s @ concat (replicate n s)"
  by (induction n) auto

lemma c_form_chain:
  "c_form (const_chain (Suc n) (Named ''c_char'')) = ''const char *'' @ concat (replicate n '' const *'')"
proof (induction n)
  case 0
  show ?case by (simp add: TYPE_MAP_def)
next
  case (Suc n)
  have ne: "c_form (const_chain (Suc n) (Named ''c_char'')) \<noteq> ''char''"
    unfolding Suc by simp
  have "c_form (const_chain (Suc (Suc n)) (Named ''c_char''))
      = c_form (const_chain (Suc n) (Named ''c_char'')) @ '' const *''"
    using ne by (simp del: const_chain.simps add: const_chain.simps(2) [of "Suc n"])
  also have "\<dots> = ''const char *'' @ (concat (replicate n '' const *'') @ '' const *'')"
    unfolding Suc by simp
  also have "\<dots> = ''const char *'' @ concat (replicate (Suc n) '' const *'')"
    unfolding concat_replicate_comm by simp
  finally show ?case .
qed

lemma TYPE_MAP_keys_no_handle: "list_all (\<lambda>k. \<not> contains ''Handle'' k) (map fst TYPE_MAP)"
  by code_simp

lemma map_of_TYPE_MAP_handle: "contains ''Handle'' x \<Longrightarrow> map_of TYPE_MAP x = None"
proof -
  assume a: "contains ''Handle'' x"
  have "x \<notin> set (map fst TYPE_MAP)"
    using TYPE_MAP_keys_no_handle a by (auto simp: list_all_iff)
  then show ?thesis by (simp add: map_of_eq_None_iff)
qed

section \<open>The extractor loop\<close>





section \<open>Rendering and the order of accumulation\<close>

lemma declarations_perm:
  assumes "mset fs' = mset fs" "distinct (map name fs)"
  shows "declarations fs' = declarations fs"
proof -
  have "set fs' = set fs" using assms(1) by (rule mset_eq_setD)
  moreover have "inj_on name (set fs)" using assms(2) by (simp add: distinct_map)
  ultimately have "inj_on name (set fs')" by simp
  with assms(1) have "sort_key name fs' = sort_key name fs" by (rule sort_key_eq_sort_key)
  then show ?thesis by (simp add: declarations_def)
qed

lemma is_pdf_module_perm:
  assumes "mset fs' = mset fs"
  shows "is_pdf_module m fs' = is_pdf_module m fs"
proof -
  have "set fs' = set fs" using assms by (rule mset_eq_setD)
  then show ?thesis by (simp add: is_pdf_module_def list_ex_iff)
qed

lemma write_module_perm:
  assumes "mset fs' = mset fs" "distinct (map name fs)"
  shows "write_module (m, fs') = write_module (m, fs)"
proof -
  have len: "length fs' = length fs" using assms(1) by (rule mset_eq_length)
  note d = declarations_perm [OF assms]
  note p = is_pdf_module_perm [OF assms(1)]
  have g: "generate_module_header k fs' b = generate_module_header k fs b" for k b
    by (simp add: generate_module_header_def len d)
  have e: "generate_enhanced_header k fs' = generate_enhanced_header k fs" for k
    by (simp add: generate_enhanced_header_def len d)
  have s: "subdir_of m fs' = subdir_of m fs"
    by (simp add: subdir_of_def p)
  have h: "header_content_of m fs' = header_content_of m fs"
    by (simp only: header_content_of_def p g e)
  show ?thesis
    by (simp only: write_module_def fst_conv snd_conv s h)
qed

lemma subdir_cases:
  "subdir_of m fs = ''../micropdf'' \<or> subdir_of m fs = ''pdf'' \<or> subdir_of m fs = ''fitz''"
  by (simp add: subdir_of_def)

lemma write_module_path_inj:
  assumes "fst (write_module (m, fs)) = fst (write_module (m', fs'))"
  shows "m = m'"
proof -
  from assms have eq: "subdir_of m fs @ ''/'' @ m @ ''.h'' = subdir_of m' fs' @ ''/'' @ m' @ ''.h''"
    by (simp add: write_module_def)
  from subdir_cases [of m fs] subdir_cases [of m' fs'] eq show ?thesis
    by (elim disjE) simp_all
qed

lemma distinct_write_paths:
  "distinct (map fst af) \<Longrightarrow> distinct (map fst (map write_module af))"
proof (induction af)
  case Nil
  show ?case by simp
next
  case (Cons e es)
  obtain m fs where e: "e = (m, fs)" by (cases e)
  have "fst (write_module e) \<notin> fst ` write_module ` set es"
  proof
    assume "fst (write_module e) \<in> fst ` write_module ` set es"
    then obtain e' where e': "e' \<in> set es" "fst (write_module e) = fst (write_module e')" by auto
    obtain m' fs' where p: "e' = (m', fs')" by (cases e')
    from e'(2) e p have "m = m'" by (auto dest: write_module_path_inj)
    with e'(1) p have "m \<in> fst ` set es" by force
    with Cons.prems e show False by simp
  qed
  with Cons show ?case by (simp add: image_image)
qed

lemma mset_writes_perm:
  assumes "mset (map up_to_order af') = mset (map up_to_order af)"
    and "list_all (\<lambda>entry. distinct (map name (snd entry))) af"
  shows "mset (map write_module af') = mset (map write_module af)"
  using assms
proof (induction af arbitrary: af')
  case Nil
  then show ?case by simp
next
  case (Cons e es)
  have "up_to_order e \<in># mset (map up_to_order af')"
    using Cons.prems(1) by simp
  then obtain e' where e': "e' \<in> set af'" "up_to_order e' = up_to_order e" by auto
  then obtain xs ys where sp: "af' = xs @ e' # ys" by (auto simp: in_set_conv_decomp)
  have rest: "mset (map up_to_order (xs @ ys)) = mset (map up_to_order es)"
    using Cons.prems(1) e'(2) unfolding sp by simp
  have IH: "mset (map write_module (xs @ ys)) = mset (map write_module es)"
    using Cons.IH [OF rest] Cons.prems(2) by simp
  have d: "distinct (map name (snd e))" using Cons.prems(2) by simp
  have "write_module (fst e', snd e') = write_module (fst e, snd e)"
    using e'(2) write_module_perm [of "snd e'" "snd e" "fst e"] d
    by (simp add: up_to_order_def)
  then have "write_module e' = write_module e" by simp
  with IH show ?case unfolding sp by simp
qed

lemma map_of_mset_eq:
  assumes "mset xs = mset ys" "distinct (map fst xs)"
  shows "map_of xs = map_of ys"
proof -
  have "mset (map fst xs) = mset (map fst ys)" using assms(1) by (metis mset_map)
  with assms(2) have dy: "distinct (map fst ys)" by (metis mset_eq_imp_distinct_iff)
  have "set xs = set ys" using assms(1) by (rule mset_eq_setD)
  with assms(2) dy show ?thesis by (simp add: map_of_inject_set)
qed

lemma sort_perm: "mset xs = mset ys \<Longrightarrow> sort xs = sort (ys :: string list)"
  by (rule properties_for_sort) simp_all

lemma masters_perm:
  assumes "mset ks' = mset ks"
  shows "generate_master_headers ks' f p = generate_master_headers ks f p"
  using sort_perm [OF assms]
  by (simp add: generate_master_headers_def fitz_header_def pdf_header_def fitz_includes_def
      pdf_includes_def)

section \<open>The scenarios of the specification\<close>

text \<open>
  C1. The signature \<open>pub extern "C" fn open_doc(path: *const c_char) -> i32\<close> parses to the
  descriptor with name \<open>open_doc\<close>, the one parameter \<open>path\<close> of converted type
  \<open>const char *\<close> and return type \<open>int32_t\<close>; its declaration is
  \<open>int32_t open_doc(const char * path);\<close>. The parameter group the parser finds is
  \<open>path: *const c_char\<close>, and it yields the single entry \<open>const char * path\<close>.
\<close>

theorem open_doc_scenario:
  \<open>parse_rust_ffi_function ''pub extern "C" fn open_doc(path: *const c_char) -> i32''
     = Some \<lparr>name = ''open_doc'', params = ''const char * path'', return = ''int32_t'',
              declaration_str = ''int32_t open_doc(const char * path);''\<rparr>
   \<and> search_params ''pub extern "C" fn open_doc(path: *const c_char) -> i32''
     = Some ''path: *const c_char''
   \<and> c_params_of ''path: *const c_char'' = [''const char * path'']
   \<and> convert_rust_type_to_c ''*const c_char'' = ''const char *''
   \<and> convert_rust_type_to_c ''i32'' = ''int32_t''\<close>
  by code_simp

text \<open>
  C2. The specification expects the signature \<open>pub extern "C" fn reset()\<close>, with no return
  arrow and no parameters, to give the declaration \<open>void reset(void);\<close>. The parser drops
  it: the parameter pattern asks for an arrow, a brace or a semicolon after the closing
  parenthesis, and the bare signature ends there. The extractor hands exactly this text to
  the parser when the opening brace stands on the next line, so such a function is missing
  from the header; with the brace on the same line the declaration is as expected.
\<close>

theorem reset_scenario_dropped:
  \<open>parse_rust_ffi_function ''pub extern "C" fn reset()'' = None
   \<and> search_params ''pub extern "C" fn reset()'' = None
   \<and> extract_function_signature [''pub extern "C" fn reset()\<newline>'', ''{\<newline>'', ''}\<newline>''] 0
       = (''pub extern "C" fn reset()'', 0)
   \<and> extract_ffi_functions
        [''#[no_mangle]\<newline>'', ''pub extern "C" fn reset()\<newline>'', ''{\<newline>'', ''}\<newline>''] = []
   \<and> parse_rust_ffi_function ''pub extern "C" fn reset() {''
       = Some \<lparr>name = ''reset'', params = ''void'', return = ''void'',
                declaration_str = ''void reset(void);''\<rparr>\<close>
  by code_simp

section \<open>TypeConverter\<close>

text \<open>
  C3. A qualified path is cut to its last segment, but only as the last rule and without
  converting the segment: \<open>std::ffi::c_char\<close> becomes \<open>c_char\<close>, not \<open>char\<close>, and
  \<open>*mut std::ffi::c_char\<close> becomes \<open>c_char *\<close> where \<open>*mut c_char\<close> becomes \<open>char *\<close>.
  Only the pointer-to-const rule cuts the path before it converts:
  \<open>*const std::ffi::c_char\<close> and \<open>*const c_char\<close> both become \<open>const char *\<close>.
\<close>

theorem qualified_path_not_converted:
  "convert_rust_type_to_c ''std::ffi::c_char'' = ''c_char''
   \<and> convert_rust_type_to_c ''c_char'' = ''char''
   \<and> convert_rust_type_to_c ''*mut std::ffi::c_char'' = ''c_char *''
   \<and> convert_rust_type_to_c ''*mut c_char'' = ''char *''
   \<and> convert_rust_type_to_c ''*const std::ffi::c_char'' = ''const char *''
   \<and> convert_rust_type_to_c ''*const c_char'' = ''const char *''"
  by code_simp

text \<open>
  C4, as stated, fails: under a pointer qualifier the pointer rule runs first, and a handle
  is emitted as a pointer to the 32-bit integer.
\<close>

theorem handle_pointer_counterexample:
  "contains ''Handle'' ''*mut FooHandle''
   \<and> convert_rust_type_to_c ''*mut FooHandle'' = ''int32_t *''
   \<and> convert_rust_type_to_c ''*mut FooHandle'' \<noteq> ''int32_t''"
  by code_simp

text \<open>
  C4, amended. A type expression that contains the handle marker and, once stripped, does
  not begin with a pointer qualifier converts to \<open>int32_t\<close>.
\<close>

theorem handle_erasure:
  assumes "contains ''Handle'' (strip s)"
    and "\<not> startswith ''*const '' (strip s)" and "\<not> startswith ''*mut '' (strip s)"
  shows "convert_rust_type_to_c s = ''int32_t''"
  using assms by (simp add: convert_rust_type_to_c.simps [of s] map_of_TYPE_MAP_handle)

text \<open>The amended C4 at the qualified handle name \<open>fz::FooHandle\<close> with blanks around it.\<close>

theorem handle_erasure_witness:
  "contains ''Handle'' (strip '' fz::FooHandle '')
   \<and> \<not> startswith ''*const '' (strip '' fz::FooHandle '')
   \<and> \<not> startswith ''*mut '' (strip '' fz::FooHandle '')
   \<and> convert_rust_type_to_c '' fz::FooHandle '' = ''int32_t''"
proof -
  have h1: "contains ''Handle'' (strip '' fz::FooHandle '')" by code_simp
  have h2: "\<not> startswith ''*const '' (strip '' fz::FooHandle '')" by code_simp
  have h3: "\<not> startswith ''*mut '' (strip '' fz::FooHandle '')" by code_simp
  from h1 h2 h3 handle_erasure [OF h1 h2 h3] show ?thesis by simp
qed

text \<open>
  C5. Nested pointers are resolved to any depth: on every well-formed pointer type the
  converter gives the C form of the specification, in which only a pointer to const whose
  inner type converts to \<open>char\<close> becomes the string idiom. \<open>n + 1\<close> pointer-to-const
  qualifiers around \<open>c_char\<close> give \<open>const char *\<close> followed by \<open>n\<close> times \<open>const *\<close>; so
  \<open>*const *const c_char\<close> converts to \<open>const char * const *\<close> and not to \<open>const char *\<close>.
\<close>

theorem nested_pointers_resolved:
  "(well_formed t \<longrightarrow> convert_rust_type_to_c (render t) = c_form t)
   \<and> convert_rust_type_to_c (render (const_chain (Suc n) (Named ''c_char'')))
       = ''const char *'' @ concat (replicate n '' const *'')
   \<and> convert_rust_type_to_c ''*const *const c_char'' = ''const char * const *''
   \<and> convert_rust_type_to_c ''*const *const c_char'' \<noteq> ''const char *''"
proof (intro conjI)
  show "well_formed t \<longrightarrow> convert_rust_type_to_c (render t) = c_form t"
    by (simp add: convert_render)
next
  have wf: "well_formed (const_chain k (Named ''c_char''))" for k
    by (induction k) (simp_all add: isword_def)
  have "convert_rust_type_to_c (render (const_chain (Suc n) (Named ''c_char'')))
      = c_form (const_chain (Suc n) (Named ''c_char''))"
    using wf by (rule convert_render)
  then show "convert_rust_type_to_c (render (const_chain (Suc n) (Named ''c_char'')))
      = ''const char *'' @ concat (replicate n '' const *'')"
    by (simp only: c_form_chain)
next
  show "convert_rust_type_to_c ''*const *const c_char'' = ''const char * const *''"
    by code_simp
next
  show "convert_rust_type_to_c ''*const *const c_char'' \<noteq> ''const char *''"
    by code_simp
qed

text \<open>C5 at the three-level pointer type \<open>*const *mut *const fz_rect\<close>.\<close>

theorem nested_pointers_resolved_witness:
  "well_formed (ConstPtr (MutPtr (ConstPtr (Named ''fz_rect''))))
   \<and> render (ConstPtr (MutPtr (ConstPtr (Named ''fz_rect'')))) = ''*const *mut *const fz_rect''
   \<and> convert_rust_type_to_c ''*const *mut *const fz_rect'' = ''fz_rect const * * const *''"
proof -
  let ?t = "ConstPtr (MutPtr (ConstPtr (Named ''fz_rect'')))"
  have w: "well_formed ?t" by code_simp
  have r: "render ?t = ''*const *mut *const fz_rect''" by code_simp
  have c: "c_form ?t = ''fz_rect const * * const *''" by code_simp
  from nested_pointers_resolved [of ?t 0] w have "convert_rust_type_to_c (render ?t) = c_form ?t"
    by blast
  with w r c show ?thesis by simp
qed

text \<open>
  C6. Conversion should be idempotent, and on a qualified path it is not: the path rule
  returns the last segment without converting it, so \<open>std::os::raw::c_int\<close> converts to
  \<open>c_int\<close>, and \<open>c_int\<close> converts to \<open>int\<close>. On the segment alone, and on every
  well-formed pointer type (lemma \<open>convert_idempotent_on_pointer_types\<close>), a second
  conversion changes nothing.
\<close>

theorem idempotence_fails_on_qualified_path:
  "convert_rust_type_to_c ''std::os::raw::c_int'' = ''c_int''
   \<and> convert_rust_type_to_c (convert_rust_type_to_c ''std::os::raw::c_int'') = ''int''
   \<and> convert_rust_type_to_c (convert_rust_type_to_c ''std::os::raw::c_int'')
       \<noteq> convert_rust_type_to_c ''std::os::raw::c_int''
   \<and> convert_rust_type_to_c (convert_rust_type_to_c ''c_int'') = convert_rust_type_to_c ''c_int''"
  by code_simp

section \<open>SignatureExtractor\<close>




section \<open>ModuleClassifier\<close>

text \<open>
  C8. A module of the fixed core-API set should be core-API whatever its functions are
  called. The module \<open>font\<close> is in that set; with a function named \<open>pdf_load_font\<close> the
  classification of \<open>main\<close>, which never consults the set, makes it document-API and writes
  its header to \<open>include/mupdf/pdf/font.h\<close>. The aggregator does consult the set: the core
  umbrella includes \<open>mupdf/fitz/font.h\<close>, a file that is not written, and the document
  umbrella has no include for the module.
\<close>

theorem core_module_placed_under_pdf:
  \<open>''font'' \<in> set fitz_modules \<and> ''font'' \<notin> set pdf_modules
   \<and> is_pdf_module ''font''
        [\<lparr>name = ''pdf_load_font'', params = ''void'', return = ''void'',
          declaration_str = ''void pdf_load_font(void);''\<rparr>]
   \<and> fst (write_module (''font'',
        [\<lparr>name = ''pdf_load_font'', params = ''void'', return = ''void'',
          declaration_str = ''void pdf_load_font(void);''\<rparr>])) = ''include/mupdf/pdf/font.h''
   \<and> fitz_includes [''font''] fitz_modules pdf_modules = [''#include "mupdf/fitz/font.h"'']
   \<and> pdf_includes [''font''] pdf_modules = []\<close>
  by code_simp

section \<open>MasterHeaderAggregator\<close>

text \<open>
  C9. The umbrella headers should include a module's header according to its
  classification. The module \<open>misc\<close>, in neither fixed set, with a function \<open>pdf_foo\<close> is
  classified document-API and its header is written to \<open>include/mupdf/pdf/misc.h\<close>; yet the
  core umbrella includes \<open>mupdf/fitz/misc.h\<close>, a file that is not written, and the document
  umbrella has no include for it: the umbrellas test the fixed sets only.
\<close>

theorem umbrella_disagrees_with_classification:
  \<open>''misc'' \<notin> set fitz_modules \<and> ''misc'' \<notin> set pdf_modules
   \<and> is_pdf_module ''misc''
        [\<lparr>name = ''pdf_foo'', params = ''void'', return = ''void'',
          declaration_str = ''void pdf_foo(void);''\<rparr>]
   \<and> fst (write_module (''misc'',
        [\<lparr>name = ''pdf_foo'', params = ''void'', return = ''void'',
          declaration_str = ''void pdf_foo(void);''\<rparr>])) = ''include/mupdf/pdf/misc.h''
   \<and> fitz_includes [''misc''] fitz_modules pdf_modules = [''#include "mupdf/fitz/misc.h"'']
   \<and> pdf_includes [''misc''] pdf_modules = []\<close>
  by code_simp

section \<open>Determinism under reordering\<close>

text \<open>
  C10. The dictionary \<open>all_functions\<close> is given in its insertion order, each module with
  its functions in the order they accumulated. A permuted dictionary has the same modules
  with the same functions in any other order, of the modules and of the functions in each.
  When the module names are distinct, as the keys of a dictionary are, and the function
  names are unique within each module, every file has the same content after the run on
  the permuted dictionary: the module headers, since the declarations are sorted by name
  when they are rendered, and the umbrella headers, since the module names are sorted.
\<close>

theorem output_independent_of_order:
  assumes "distinct (map fst all_functions)"
    and "list_all (\<lambda>entry. distinct (map name (snd entry))) all_functions"
    and "mset (map up_to_order permuted) = mset (map up_to_order all_functions)"
  shows "files_after (main_writes permuted) = files_after (main_writes all_functions)"
proof -
  have w: "mset (map write_module permuted) = mset (map write_module all_functions)"
    using assms(3,2) by (rule mset_writes_perm)
  have "mset (map fst (map up_to_order permuted)) = mset (map fst (map up_to_order all_functions))"
    using assms(3) by (metis mset_map)
  then have k: "mset (map fst permuted) = mset (map fst all_functions)"
    by (simp add: up_to_order_def comp_def)
  have m: "generate_master_headers (map fst permuted) fitz_modules pdf_modules
      = generate_master_headers (map fst all_functions) fitz_modules pdf_modules"
    using k by (rule masters_perm)
  have d: "distinct (map fst (rev (map write_module permuted)))"
  proof -
    have "distinct (map fst (map write_module all_functions))"
      using assms(1) by (rule distinct_write_paths)
    moreover have "mset (map fst (map write_module permuted))
        = mset (map fst (map write_module all_functions))"
      using w by (metis mset_map)
    ultimately have "distinct (map fst (map write_module permuted))"
      by (metis mset_eq_imp_distinct_iff)
    then show ?thesis by (simp add: rev_map [symmetric])
  qed
  have "mset (rev (map write_module permuted)) = mset (rev (map write_module all_functions))"
    using w by simp
  then have "map_of (rev (map write_module permuted)) = map_of (rev (map write_module all_functions))"
    using d by (rule map_of_mset_eq)
  then show ?thesis
    by (simp add: files_after_def main_writes_def m)
qed

text \<open>
  C10 on two modules: the modules exchanged and the two functions of \<open>geometry\<close> exchanged.
\<close>

theorem output_independent_of_order_witness:
  "distinct (map fst
      [(''geometry'', [\<lparr>name = ''fz_b'', params = ''void'', return = ''void'', declaration_str = ''void fz_b(void);''\<rparr>,
                       \<lparr>name = ''fz_a'', params = ''void'', return = ''int'', declaration_str = ''int fz_a(void);''\<rparr>]),
       (''annot'', [\<lparr>name = ''pdf_c'', params = ''void'', return = ''void'', declaration_str = ''void pdf_c(void);''\<rparr>])])
   \<and> list_all (\<lambda>entry. distinct (map name (snd entry)))
      [(''geometry'', [\<lparr>name = ''fz_b'', params = ''void'', return = ''void'', declaration_str = ''void fz_b(void);''\<rparr>,
                       \<lparr>name = ''fz_a'', params = ''void'', return = ''int'', declaration_str = ''int fz_a(void);''\<rparr>]),
       (''annot'', [\<lparr>name = ''pdf_c'', params = ''void'', return = ''void'', declaration_str = ''void pdf_c(void);''\<rparr>])]
   \<and> files_after (main_writes
      [(''annot'', [\<lparr>name = ''pdf_c'', params = ''void'', return = ''void'', declaration_str = ''void pdf_c(void);''\<rparr>]),
       (''geometry'', [\<lparr>name = ''fz_a'', params = ''void'', return = ''int'', declaration_str = ''int fz_a(void);''\<rparr>,
                       \<lparr>name = ''fz_b'', params = ''void'', return = ''void'', declaration_str = ''void fz_b(void);''\<rparr>])])
     = files_after (main_writes
      [(''geometry'', [\<lparr>name = ''fz_b'', params = ''void'', return = ''void'', declaration_str = ''void fz_b(void);''\<rparr>,
                       \<lparr>name = ''fz_a'', params = ''void'', return = ''int'', declaration_str = ''int fz_a(void);''\<rparr>]),
       (''annot'', [\<lparr>name = ''pdf_c'', params = ''void'', return = ''void'', declaration_str = ''void pdf_c(void);''\<rparr>])])"
proof -
  let ?b = "\<lparr>name = ''fz_b'', params = ''void'', return = ''void'', declaration_str = ''void fz_b(void);''\<rparr>"
  let ?a = "\<lparr>name = ''fz_a'', params = ''void'', return = ''int'', declaration_str = ''int fz_a(void);''\<rparr>"
  let ?c = "\<lparr>name = ''pdf_c'', params = ''void'', return = ''void'', declaration_str = ''void pdf_c(void);''\<rparr>"
  let ?af = "[(''geometry'', [?b, ?a]), (''annot'', [?c])]"
  let ?pm = "[(''annot'', [?c]), (''geometry'', [?a, ?b])]"
  have h1: "distinct (map fst ?af)" by simp
  have h2: "list_all (\<lambda>entry. distinct (map name (snd entry))) ?af" by simp
  have h3: "mset (map up_to_order ?pm) = mset (map up_to_order ?af)"
    by (simp add: up_to_order_def)
  from output_independent_of_order [OF h1 h2 h3] h1 h2 show ?thesis by simp
qed

end
